theory Spec2Isabelle
  imports
    Complex_Main
    "HOL-Library.Log_Nat"
    "HOL-Library.Multiset"
    "HOL-Library.List_Lexorder"
    "HOL-Library.Char_ord"
begin

section \<open>Attendance tracker: the data processing of \<open>app/page.tsx\<close>\<close>

text \<open>
  The page component keeps the fetched roster and attendance logs in React state, derives
  the chart data in an effect, and derives the two drill-down views in memoised
  computations. This theory embeds those computations and the two selection handlers as
  HOL functions and proves the properties the specification states about them.

  Conventions of the embedding:
  \<^item> a JavaScript string is a \<open>string\<close>, one \<open>char\<close> per code unit;
  \<^item> student ids are JSON integers, modelled as \<open>int\<close>; where an id is printed or parsed
    the model is that of a safe integer (magnitude below \<open>2 ^ 53\<close>), for which
    \<open>Number.prototype.toString\<close> prints the plain decimal numeral;
  \<^item> any other number is a finite IEEE-754 binary64 value, modelled by the rational it
    denotes; each arithmetic operation rounds its exact result to the nearest binary64
    value, ties to even. All values that occur are quotients of array lengths (below
    \<open>2 ^ 32\<close>) scaled by 100, so exponent overflow and subnormal values do not arise and are
    not modelled;
  \<^item> \<open>null\<close> or \<open>undefined\<close> is \<open>None\<close>.
\<close>

subsection \<open>Data types\<close>

record Student =
  id' :: int
  name :: string

record AttendanceRawData =
  date :: string
  present :: "int list"

type_synonym number = rat

record ProcessedChartDataPoint =
  date :: string
  originalDate :: string
  attendancePercentage :: number
  presentStudentIds :: "int list"
  presentStudentNames :: "string list option"

text \<open>The records of the per-student table: \<open>{ date, status }\<close>.\<close>

record StudentAttendance =
  date :: string
  status :: string

text \<open>The component state (the \<open>useState\<close> cells of \<open>HomePage\<close>).\<close>

record State =
  allStudents :: "Student list"
  rawAttendance :: "AttendanceRawData list"
  processedChartData :: "ProcessedChartDataPoint list"
  loadingStudents :: bool
  loadingAttendance :: bool
  error :: "string option"
  selectedBarDate :: "string option"
  selectedStudentId :: string

text \<open>
  The argument of the chart's click handler: \<open>data\<close> may be missing, its
  \<open>activePayload\<close> may be missing, and each entry of \<open>activePayload\<close> carries a
  \<open>payload\<close>.
\<close>

record TooltipEntry =
  payload :: ProcessedChartDataPoint

record ChartClick =
  activePayload :: "TooltipEntry list option"

subsection \<open>Numbers: binary64 arithmetic, \<open>toFixed\<close>, \<open>parseFloat\<close>\<close>

text \<open>Rounding a rational to the nearest integer, ties to the even one.\<close>

definition round_half_even :: "rat \<Rightarrow> int" where
  "round_half_even q =
     (let f = \<lfloor>q\<rfloor>; r = q - of_int f
      in if r < 1 / 2 then f
         else if 1 / 2 < r then f + 1
         else if even f then f else f + 1)"

text \<open>The binary exponent of a positive rational: \<open>2 powi e \<le> x < 2 powi (e + 1)\<close>.\<close>

definition ilog2 :: "rat \<Rightarrow> int" where
  "ilog2 x =
     (let d = bitlen (fst (quotient_of x)) - bitlen (snd (quotient_of x))
      in if 2 powi d \<le> x then d else d - 1)"

text \<open>
  The nearest binary64 value: the significand has 53 bits, so the spacing of the values
  with exponent \<open>e\<close> is \<open>2 powi (e - 52)\<close>.
\<close>

definition binary64 :: "rat \<Rightarrow> number" where
  "binary64 x =
     (if x = 0 then 0
      else let u = 2 powi (ilog2 \<bar>x\<bar> - 52)
           in sgn x * of_int (round_half_even (\<bar>x\<bar> / u)) * u)"

definition Number_divide :: "number \<Rightarrow> number \<Rightarrow> number" where
  "Number_divide a b = binary64 (a / b)"

definition Number_multiply :: "number \<Rightarrow> number \<Rightarrow> number" where
  "Number_multiply a b = binary64 (a * b)"

text \<open>
  \<open>x.toFixed(f)\<close> prints the decimal numeral \<open>n / 10 ^ f\<close> for the integer \<open>n\<close> that makes
  \<open>n / 10 ^ f - x\<close> closest to zero, the larger \<open>n\<close> if there are two; a negative \<open>x\<close> is
  printed as the sign followed by the numeral of \<open>- x\<close>. (This is the case of a magnitude
  below \<open>10 ^ 21\<close>, the only one that arises.) The numeral is modelled by the rational it
  denotes, and \<open>parseFloat\<close> reads a numeral as the nearest binary64 value.
\<close>

definition toFixed :: "number \<Rightarrow> nat \<Rightarrow> rat" where
  "toFixed x f =
     (if x < 0 then - (of_int \<lfloor>(- x) * 10 ^ f + 1 / 2\<rfloor> / 10 ^ f)
      else of_int \<lfloor>x * 10 ^ f + 1 / 2\<rfloor> / 10 ^ f)"

definition parseFloat :: "rat \<Rightarrow> number" where
  "parseFloat d = binary64 d"

subsection \<open>Strings: \<open>substring\<close>, \<open>toString\<close>, \<open>parseInt\<close>\<close>

text \<open>
  \<open>s.substring(start)\<close>: the start index is clamped to \<open>[0, s.length]\<close> and the rest of the
  string is returned.
\<close>

definition substring :: "string \<Rightarrow> int \<Rightarrow> string" where
  "substring s start = drop (nat (min (max start 0) (int (length s)))) s"

definition digit_char :: "nat \<Rightarrow> char" where
  "digit_char d = ''0123456789'' ! d"

fun digits :: "nat \<Rightarrow> string" where
  "digits n = (if n < 10 then [digit_char n] else digits (n div 10) @ [digit_char (n mod 10)])"

declare digits.simps [simp del]

text \<open>\<open>Number.prototype.toString\<close> and template-literal conversion of an integer.\<close>

definition Number_toString :: "int \<Rightarrow> string" where
  "Number_toString i = (if i < 0 then CHR ''-'' # digits (nat (- i)) else digits (nat i))"





subsection \<open>Chart data (the processing effect)\<close>

definition percentage :: "nat \<Rightarrow> AttendanceRawData \<Rightarrow> number" where
  "percentage totalStudents log' =
     (if totalStudents > 0
      then Number_multiply
             (Number_divide (of_nat (length (present log'))) (of_nat totalStudents)) 100
      else 0)"

definition chartPoint :: "nat \<Rightarrow> AttendanceRawData \<Rightarrow> ProcessedChartDataPoint" where
  "chartPoint totalStudents log' =
     \<lparr> ProcessedChartDataPoint.date = substring (AttendanceRawData.date log') 5,
       originalDate = AttendanceRawData.date log',
       attendancePercentage = parseFloat (toFixed (percentage totalStudents log') 1),
       presentStudentIds = present log',
       presentStudentNames = None \<rparr>"

definition chartData :: "Student list \<Rightarrow> AttendanceRawData list \<Rightarrow> ProcessedChartDataPoint list" where
  "chartData students logs = map (chartPoint (length students)) logs"

text \<open>
  The effect that runs when the roster or the logs change: it stores new chart data only
  when both are non-empty.
\<close>

definition processChartData :: "State \<Rightarrow> State" where
  "processChartData st =
     (if length (allStudents st) > 0 \<and> length (rawAttendance st) > 0
      then st\<lparr>processedChartData := chartData (allStudents st) (rawAttendance st)\<rparr>
      else st)"

subsection \<open>Selection handlers\<close>

text \<open>
  \<open>handleBarClick(data, index)\<close>: the date of the first active payload if there is one,
  otherwise the date of the chart point at \<open>index\<close> if there is one, otherwise nothing.
\<close>

definition clickFallback :: "int \<Rightarrow> State \<Rightarrow> State" where
  "clickFallback index st =
     (if 0 \<le> index \<and> index < int (length (processedChartData st))
      then st\<lparr>selectedBarDate := Some (originalDate (processedChartData st ! nat index))\<rparr>
      else st)"

definition handleBarClick :: "ChartClick option \<Rightarrow> int \<Rightarrow> State \<Rightarrow> State" where
  "handleBarClick data index st =
     (case data of
        None \<Rightarrow> clickFallback index st
      | Some d \<Rightarrow>
          (case activePayload d of
             None \<Rightarrow> clickFallback index st
           | Some [] \<Rightarrow> clickFallback index st
           | Some (e # es) \<Rightarrow> st\<lparr>selectedBarDate := Some (originalDate (payload e))\<rparr>))"

text \<open>The \<open>onChange\<close> handler of the student select: \<open>setSelectedStudentId(e.target.value)\<close>.\<close>

definition onStudentChange :: "string \<Rightarrow> State \<Rightarrow> State" where
  "onStudentChange v st = st\<lparr>selectedStudentId := v\<rparr>"

subsection \<open>Drill-down by day\<close>

definition studentLabel :: "Student list \<Rightarrow> int \<Rightarrow> string" where
  "studentLabel students i =
     (case find (\<lambda>s. id' s = i) students of
        Some student \<Rightarrow> name student
      | None \<Rightarrow> ''ID: '' @ Number_toString i)"

text \<open>A missing selection and the empty string are both falsy.\<close>

definition presentStudentsOnSelectedDate ::
  "string option \<Rightarrow> AttendanceRawData list \<Rightarrow> Student list \<Rightarrow> string list" where
  "presentStudentsOnSelectedDate sel logs students =
     (case sel of
        None \<Rightarrow> []
      | Some d \<Rightarrow>
          if d = [] \<or> length students = 0 then []
          else (case find (\<lambda>r. AttendanceRawData.date r = d) logs of
                  None \<Rightarrow> []
                | Some log' \<Rightarrow> map (studentLabel students) (present log')))"

subsection \<open>Drill-down by student\<close>



definition Array_includes :: "int list \<Rightarrow> int option \<Rightarrow> bool" where
  "Array_includes xs v = (case v of None \<Rightarrow> False | Some n \<Rightarrow> n \<in> set xs)"

definition attendanceOf :: "int option \<Rightarrow> AttendanceRawData \<Rightarrow> StudentAttendance" where
  "attendanceOf studentIdNum log' =
     \<lparr> StudentAttendance.date = substring (AttendanceRawData.date log') 5,
       status = (if Array_includes (present log') studentIdNum then ''Present'' else ''Absent'') \<rparr>"





text \<open>A small state used to instantiate the theorems below.\<close>

definition exampleState :: State where
  "exampleState =
     \<lparr> allStudents = [\<lparr>id' = 1, name = ''Ann''\<rparr>, \<lparr>id' = 2, name = ''Bob''\<rparr>],
       rawAttendance =
         [\<lparr>AttendanceRawData.date = ''2025-05-03'', present = [1]\<rparr>,
          \<lparr>AttendanceRawData.date = ''2025-05-01'', present = [1, 2]\<rparr>],
       processedChartData = [],
       loadingStudents = False,
       loadingAttendance = False,
       error = None,
       selectedBarDate = None,
       selectedStudentId = [] \<rparr>"



text \<open>Rosters and log entries used to instantiate the percentage theorems.\<close>

definition roster80 :: "Student list" where
  "roster80 = map (\<lambda>i. \<lparr>id' = i, name = ''Student '' @ Number_toString i\<rparr>) [1..80]"

definition log23 :: AttendanceRawData where
  "log23 = \<lparr>AttendanceRawData.date = ''2025-05-01'', present = [1..23]\<rparr>"

definition roster4 :: "Student list" where
  "roster4 = [\<lparr>id' = 1, name = ''Ann''\<rparr>, \<lparr>id' = 2, name = ''Bob''\<rparr>,
              \<lparr>id' = 3, name = ''Cy''\<rparr>, \<lparr>id' = 4, name = ''Dee''\<rparr>]"

definition log3 :: AttendanceRawData where
  "log3 = \<lparr>AttendanceRawData.date = ''2025-05-01'', present = [1, 2, 3]\<rparr>"

section \<open>Properties\<close>

subsection \<open>Auxiliary facts\<close>

lemma binary64_zero: "binary64 0 = 0"
  by (simp add: binary64_def)

lemma floor_half: "\<lfloor>(1::rat) / 2\<rfloor> = 0"
  by (rule floor_unique) simp_all

lemma toFixed_zero: "toFixed 0 f = 0"
  by (simp add: toFixed_def floor_half)

lemma substring_5: "substring s 5 = drop 5 s"
  by (cases "5 \<le> length s") (simp_all add: substring_def min_def)

lemma find_first_match:
  assumes "\<forall>r \<in> set pre. \<not> P r" and "P e"
  shows "find P (pre @ e # rest) = Some e"
  using assms by (induction pre) auto
































text \<open>The empty date string gives no rows, whatever the logs and the roster are.\<close>

lemma by_day_empty_date: "presentStudentsOnSelectedDate (Some []) logs students = []"
  by (simp add: presentStudentsOnSelectedDate_def)

lemma studentLabel_found:
  assumes "\<exists>s \<in> set students. id' s = i"
  shows "\<exists>s \<in> set students. id' s = i \<and> studentLabel students i = name s"
proof -
  from assms obtain s where "find (\<lambda>s. id' s = i) students = Some s"
    by (cases "find (\<lambda>s. id' s = i) students") (auto simp: find_None_iff)
  moreover from this have "s \<in> set students \<and> id' s = i"
    by (auto simp: find_Some_iff)
  ultimately show ?thesis by (auto simp: studentLabel_def)
qed

lemma studentLabel_missing:
  assumes "\<not> (\<exists>s \<in> set students. id' s = i)"
  shows "studentLabel students i = ''ID: '' @ Number_toString i"
proof -
  from assms have "find (\<lambda>s. id' s = i) students = None"
    by (simp add: find_None_iff)
  then show ?thesis by (simp add: studentLabel_def)
qed

lemma list_of_three:
  assumes "length xs = 3" and "xs ! 0 = a" and "xs ! 1 = b" and "xs ! 2 = c"
  shows "xs = [a, b, c]"
proof -
  from assms(1) obtain x y z where "xs = [x, y, z]"
    by (auto simp: numeral_3_eq_3 length_Suc_conv)
  with assms(2-4) show ?thesis by simp
qed

subsection \<open>Binary64 rounding\<close>

text \<open>
  The exponent function meets its specification, rounding is monotone, fixes the values
  it can represent, and has a relative error of at most \<open>2 ^ -53\<close>.
\<close>

lemma pow2_pos: "(0::rat) < 2 powi e"
  by simp

lemma pow2_mono: "e \<le> e' \<Longrightarrow> (2::rat) powi e \<le> 2 powi e'"
  by (rule power_int_increasing) simp_all

lemma ilog2_bounds:
  assumes "0 < x"
  shows "2 powi (ilog2 x) \<le> x \<and> x < 2 powi (ilog2 x + 1)"
proof -
  obtain a b where q: "quotient_of x = (a, b)" by (cases "quotient_of x")
  then have b: "0 < b" and x: "x = of_int a / of_int b"
    by (simp_all add: quotient_of_denom_pos quotient_of_div)
  from assms b x have a: "0 < a"
    by (simp add: zero_less_divide_iff)
  define la lb where "la = bitlen a" and "lb = bitlen b"
  from bitlen_bounds [OF a] have a1: "(2::int) ^ nat (la - 1) \<le> a" and a2: "a < 2 ^ nat la"
    by (simp_all add: la_def)
  from bitlen_bounds [OF b] have b1: "(2::int) ^ nat (lb - 1) \<le> b" and b2: "b < 2 ^ nat lb"
    by (simp_all add: lb_def)
  have la: "1 \<le> la" using a by (auto simp: la_def bitlen_alt_def)
  have lb: "1 \<le> lb" using b by (auto simp: lb_def bitlen_alt_def)
  have ra1: "(2::rat) powi (la - 1) \<le> of_int a"
  proof -
    have "(2::rat) powi (la - 1) = of_int (2 ^ nat (la - 1))"
      using la by (simp add: power_int_def)
    also have "\<dots> \<le> of_int a" using a1 by (simp only: of_int_le_iff)
    finally show ?thesis .
  qed
  have ra2: "of_int a < (2::rat) powi la"
  proof -
    have "(of_int a :: rat) < of_int (2 ^ nat la)" using a2 by (simp only: of_int_less_iff)
    also have "\<dots> = 2 powi la" using la by (simp add: power_int_def)
    finally show ?thesis .
  qed
  have rb1: "(2::rat) powi (lb - 1) \<le> of_int b"
  proof -
    have "(2::rat) powi (lb - 1) = of_int (2 ^ nat (lb - 1))"
      using lb by (simp add: power_int_def)
    also have "\<dots> \<le> of_int b" using b1 by (simp only: of_int_le_iff)
    finally show ?thesis .
  qed
  have rb2: "of_int b < (2::rat) powi lb"
  proof -
    have "(of_int b :: rat) < of_int (2 ^ nat lb)" using b2 by (simp only: of_int_less_iff)
    also have "\<dots> = 2 powi lb" using lb by (simp add: power_int_def)
    finally show ?thesis .
  qed
  have rb: "(0::rat) < of_int b" using b by simp
  have lower: "2 powi (la - lb - 1) \<le> x"
  proof -
    have "(2::rat) powi (la - lb - 1) * of_int b \<le> 2 powi (la - lb - 1) * 2 powi lb"
      using rb2 by (intro mult_left_mono) simp_all
    also have "\<dots> = 2 powi (la - 1)"
      by (simp flip: power_int_add)
    also have "\<dots> \<le> of_int a" by (rule ra1)
    finally show ?thesis using rb by (simp add: x pos_le_divide_eq)
  qed
  have upper: "x < 2 powi (la - lb + 1)"
  proof -
    have "of_int a < (2::rat) powi la" by (rule ra2)
    also have "\<dots> = 2 powi (la - lb + 1) * 2 powi (lb - 1)"
      by (simp flip: power_int_add)
    also have "\<dots> \<le> 2 powi (la - lb + 1) * of_int b"
      using rb1 by (intro mult_left_mono) simp_all
    finally show ?thesis using rb by (simp add: x pos_divide_less_eq)
  qed
  show ?thesis
  proof (cases "2 powi (la - lb) \<le> x")
    case True
    then have "ilog2 x = la - lb" by (simp add: ilog2_def q la_def lb_def)
    with True upper show ?thesis by simp
  next
    case False
    then have "ilog2 x = la - lb - 1" by (simp add: ilog2_def q la_def lb_def)
    with False lower show ?thesis by simp
  qed
qed

lemma exponent_unique:
  assumes "2 powi e \<le> (x::rat)" "x < 2 powi (e + 1)" "2 powi e' \<le> x" "x < 2 powi (e' + 1)"
  shows "e = e'"
proof (rule ccontr)
  assume "e \<noteq> e'"
  then consider "e + 1 \<le> e'" | "e' + 1 \<le> e" by linarith
  then show False
  proof cases
    case 1
    then have "(2::rat) powi (e + 1) \<le> 2 powi e'" by (rule pow2_mono)
    with assms show False by linarith
  next
    case 2
    then have "(2::rat) powi (e' + 1) \<le> 2 powi e" by (rule pow2_mono)
    with assms show False by linarith
  qed
qed

lemma ilog2_eq:
  assumes "2 powi e \<le> x" and "x < 2 powi (e + 1)"
  shows "ilog2 x = e"
proof -
  have "0 < x" using assms(1) pow2_pos [of e] by linarith
  from ilog2_bounds [OF this] assms show ?thesis
    by (intro exponent_unique [of "ilog2 x" x e]) simp_all
qed

lemma ilog2_mono:
  assumes "0 < x" and "x \<le> y"
  shows "ilog2 x \<le> ilog2 y"
proof (rule ccontr)
  assume "\<not> ilog2 x \<le> ilog2 y"
  then have "ilog2 y + 1 \<le> ilog2 x" by simp
  then have "(2::rat) powi (ilog2 y + 1) \<le> 2 powi (ilog2 x)" by (rule pow2_mono)
  moreover have "0 < y" using assms by simp
  ultimately show False
    using ilog2_bounds [OF assms(1)] ilog2_bounds [OF \<open>0 < y\<close>] assms(2) by linarith
qed

lemma round_half_even_cases:
  "round_half_even q = \<lfloor>q\<rfloor> \<or> round_half_even q = \<lfloor>q\<rfloor> + 1"
  by (simp add: round_half_even_def Let_def)

lemma round_half_even_of_int: "round_half_even (of_int n) = n"
  by (simp add: round_half_even_def)

lemma round_half_even_le:
  assumes "q \<le> of_int n"
  shows "round_half_even q \<le> n"
proof (cases "q = of_int n")
  case True
  then show ?thesis by (simp add: round_half_even_of_int)
next
  case False
  with assms have "q < of_int n" by simp
  then have "\<lfloor>q\<rfloor> < n" by (simp add: floor_less_iff)
  with round_half_even_cases [of q] show ?thesis by auto
qed

lemma round_half_even_ge:
  assumes "of_int n \<le> q"
  shows "n \<le> round_half_even q"
proof -
  from assms have "n \<le> \<lfloor>q\<rfloor>" by (simp add: le_floor_iff)
  with round_half_even_cases [of q] show ?thesis by auto
qed

lemma round_half_even_mono:
  assumes "q \<le> q'"
  shows "round_half_even q \<le> round_half_even q'"
proof (cases "\<lfloor>q\<rfloor> = \<lfloor>q'\<rfloor>")
  case True
  with assms have "q - of_int \<lfloor>q\<rfloor> \<le> q' - of_int \<lfloor>q'\<rfloor>" by simp
  with True show ?thesis
    by (auto simp: round_half_even_def Let_def)
next
  case False
  with assms have "\<lfloor>q\<rfloor> < \<lfloor>q'\<rfloor>"
    using floor_mono [of q q'] by simp
  with round_half_even_cases [of q] round_half_even_cases [of q'] show ?thesis by auto
qed

lemma round_half_even_near:
  assumes "of_int m - 1 / 2 < q" and "q < of_int m + 1 / 2"
  shows "round_half_even q = m"
proof (cases "of_int m \<le> q")
  case True
  with assms have "\<lfloor>q\<rfloor> = m" by (intro floor_unique) simp_all
  with assms show ?thesis by (simp add: round_half_even_def)
next
  case False
  with assms have "\<lfloor>q\<rfloor> = m - 1" by (intro floor_unique) simp_all
  with assms show ?thesis by (simp add: round_half_even_def)
qed

lemma round_half_even_error: "\<bar>of_int (round_half_even q) - q\<bar> \<le> 1 / 2"
proof -
  have "of_int \<lfloor>q\<rfloor> \<le> q" "q < of_int \<lfloor>q\<rfloor> + 1" by linarith+
  then show ?thesis
    by (auto simp: round_half_even_def Let_def abs_le_iff)
qed

lemma binary64_pos:
  assumes "0 < x"
  shows "binary64 x = of_int (round_half_even (x / 2 powi (ilog2 x - 52))) * 2 powi (ilog2 x - 52)"
  using assms by (simp add: binary64_def Let_def)

lemma binary64_at:
  assumes "2 powi e \<le> x" and "x < 2 powi (e + 1)"
  shows "binary64 x = of_int (round_half_even (x / 2 powi (e - 52))) * 2 powi (e - 52)"
proof -
  have "0 < x" using assms(1) pow2_pos [of e] by linarith
  with ilog2_eq [OF assms] show ?thesis by (simp add: binary64_pos)
qed

lemma scaled_bounds:
  fixes x :: rat
  assumes "2 powi e \<le> x" and "x < 2 powi (e + 1)"
  shows "2 ^ 52 \<le> x / 2 powi (e - 52)" and "x / 2 powi (e - 52) < 2 ^ 53"
proof -
  have e: "(2::rat) powi e = 2 ^ 52 * 2 powi (e - 52)"
    using power_int_add [of "2::rat" 52 "e - 52"] by simp
  have e1: "(2::rat) powi (e + 1) = 2 ^ 53 * 2 powi (e - 52)"
    using power_int_add [of "2::rat" 53 "e - 52"] by (simp add: add.commute)
  show "2 ^ 52 \<le> x / 2 powi (e - 52)"
    using assms(1) by (simp add: pos_le_divide_eq e)
  show "x / 2 powi (e - 52) < 2 ^ 53"
    using assms(2) by (simp add: pos_divide_less_eq e1)
qed

lemma binary64_bounds:
  assumes "2 powi e \<le> x" and "x < 2 powi (e + 1)"
  shows "2 powi e \<le> binary64 x" and "binary64 x \<le> 2 powi (e + 1)"
proof -
  let ?u = "(2::rat) powi (e - 52)"
  let ?m = "round_half_even (x / ?u)"
  have e: "(2::rat) powi e = 2 ^ 52 * ?u"
    using power_int_add [of "2::rat" 52 "e - 52"] by simp
  have e1: "(2::rat) powi (e + 1) = 2 ^ 53 * ?u"
    using power_int_add [of "2::rat" 53 "e - 52"] by (simp add: add.commute)
  from scaled_bounds [OF assms] have lo: "of_int (2 ^ 52) \<le> x / ?u"
    and hi: "x / ?u \<le> of_int (2 ^ 53)"
    by simp_all
  have "2 ^ 52 \<le> ?m" using lo by (rule round_half_even_ge)
  moreover have "?m \<le> 2 ^ 53" using hi by (rule round_half_even_le)
  ultimately have "(2::rat) ^ 52 \<le> of_int ?m" "(of_int ?m :: rat) \<le> 2 ^ 53"
    by (metis of_int_le_iff of_int_numeral of_int_power)+
  then have "2 ^ 52 * ?u \<le> of_int ?m * ?u" "of_int ?m * ?u \<le> 2 ^ 53 * ?u"
    by (simp_all add: mult_right_mono)
  then show "2 powi e \<le> binary64 x" and "binary64 x \<le> 2 powi (e + 1)"
    unfolding binary64_at [OF assms] e e1 by simp_all
qed

lemma binary64_nonneg:
  assumes "0 \<le> x"
  shows "0 \<le> binary64 x"
proof (cases "x = 0")
  case True
  then show ?thesis by (simp add: binary64_def)
next
  case False
  with assms have "0 < x" by simp
  from ilog2_bounds [OF this] binary64_bounds(1) [of "ilog2 x" x] pow2_pos [of "ilog2 x"]
  show ?thesis by linarith
qed

lemma binary64_mono_pos:
  assumes "0 < x" and "x \<le> y"
  shows "binary64 x \<le> binary64 y"
proof -
  have y: "0 < y" using assms by simp
  note bx = ilog2_bounds [OF assms(1)] and by' = ilog2_bounds [OF y]
  show ?thesis
  proof (cases "ilog2 x = ilog2 y")
    case True
    let ?u = "(2::rat) powi (ilog2 y - 52)"
    have "x / ?u \<le> y / ?u" using assms(2) by (simp add: divide_right_mono)
    then have "round_half_even (x / ?u) \<le> round_half_even (y / ?u)"
      by (rule round_half_even_mono)
    then have "(of_int (round_half_even (x / ?u)) :: rat) * ?u \<le> of_int (round_half_even (y / ?u)) * ?u"
      by (intro mult_right_mono) simp_all
    then show ?thesis
      using True by (simp add: binary64_pos assms(1) y)
  next
    case False
    with ilog2_mono [OF assms] have "ilog2 x + 1 \<le> ilog2 y" by simp
    then have "(2::rat) powi (ilog2 x + 1) \<le> 2 powi (ilog2 y)" by (rule pow2_mono)
    moreover have "binary64 x \<le> 2 powi (ilog2 x + 1)"
      using bx by (intro binary64_bounds(2)) simp_all
    moreover have "2 powi (ilog2 y) \<le> binary64 y"
      using by' by (intro binary64_bounds(1)) simp_all
    ultimately show ?thesis by linarith
  qed
qed

lemma binary64_mono:
  assumes "0 \<le> x" and "x \<le> y"
  shows "binary64 x \<le> binary64 y"
proof (cases "x = 0")
  case True
  with assms binary64_nonneg [of y] show ?thesis by (simp add: binary64_def)
next
  case False
  with assms show ?thesis by (intro binary64_mono_pos) simp_all
qed

lemma binary64_one: "binary64 1 = 1"
proof -
  have "binary64 1 = of_int (round_half_even (1 / 2 powi (0 - 52))) * 2 powi (0 - 52)"
    by (rule binary64_at) simp_all
  also have "(1::rat) / 2 powi (0 - 52) = of_int (2 ^ 52)"
    by (simp add: power_int_minus field_simps)
  also have "round_half_even (of_int (2 ^ 52)) = 2 ^ 52"
    by (rule round_half_even_of_int)
  finally show ?thesis by (simp add: power_int_minus)
qed

lemma binary64_hundred: "binary64 100 = 100"
proof -
  have "binary64 100 = of_int (round_half_even (100 / 2 powi (6 - 52))) * 2 powi (6 - 52)"
    by (rule binary64_at) simp_all
  also have "(100::rat) / 2 powi (6 - 52) = of_int (100 * 2 ^ 46)"
    by (simp add: power_int_minus field_simps)
  also have "round_half_even (of_int (100 * 2 ^ 46)) = 100 * 2 ^ 46"
    by (rule round_half_even_of_int)
  finally show ?thesis by (simp add: power_int_minus)
qed

lemma binary64_value:
  assumes "2 powi e \<le> x" and "x < 2 powi (e + 1)"
    and "of_int m - 1 / 2 < x / 2 powi (e - 52)" and "x / 2 powi (e - 52) < of_int m + 1 / 2"
  shows "binary64 x = of_int m * 2 powi (e - 52)"
  using binary64_at [OF assms(1,2)] round_half_even_near [OF assms(3,4)] by simp

lemma binary64_error:
  assumes "0 < x"
  shows "\<bar>binary64 x - x\<bar> \<le> x / 2 ^ 53"
proof -
  let ?e = "ilog2 x"
  let ?u = "(2::rat) powi (?e - 52)"
  let ?m = "round_half_even (x / ?u)"
  have u: "0 < ?u" by simp
  have "\<bar>of_int ?m - x / ?u\<bar> \<le> 1 / 2" by (rule round_half_even_error)
  then have "\<bar>of_int ?m - x / ?u\<bar> * ?u \<le> 1 / 2 * ?u"
    using u by (intro mult_right_mono) simp_all
  moreover have "\<bar>of_int ?m - x / ?u\<bar> * ?u = \<bar>of_int ?m * ?u - x\<bar>"
  proof -
    have "\<bar>of_int ?m - x / ?u\<bar> * ?u = \<bar>(of_int ?m - x / ?u) * ?u\<bar>"
      using u by (simp add: abs_mult)
    also have "(of_int ?m - x / ?u) * ?u = of_int ?m * ?u - x"
      using u by (simp add: left_diff_distrib)
    finally show ?thesis .
  qed
  ultimately have err: "\<bar>binary64 x - x\<bar> \<le> ?u / 2"
    using assms by (simp add: binary64_pos)
  have "(2::rat) powi ?e = 2 ^ 52 * ?u"
    using power_int_add [of "2::rat" 52 "?e - 52"] by simp
  with ilog2_bounds [OF assms] have "2 ^ 52 * ?u \<le> x" by simp
  then have "?u / 2 \<le> x / 2 ^ 53" by simp
  with err show ?thesis by linarith
qed

lemma product_error:
  fixes P R :: nat
  assumes "0 < R" and "P \<le> R"
  shows "\<bar>Number_multiply (Number_divide (of_nat P) (of_nat R)) 100 - of_nat P / of_nat R * 100\<bar>
           \<le> 200 / 2 ^ 53"
proof (cases "P = 0")
  case True
  then show ?thesis by (simp add: Number_divide_def Number_multiply_def binary64_zero)
next
  case False
  let ?y = "(of_nat P :: rat) / of_nat R"
  let ?y1 = "binary64 ?y"
  let ?x = "binary64 (?y1 * 100)"
  have y: "0 < ?y" "?y \<le> 1" using assms False by simp_all
  have e1: "\<bar>?y1 - ?y\<bar> \<le> ?y / 2 ^ 53" using y(1) by (rule binary64_error)
  with y(2) have e1': "\<bar>?y1 - ?y\<bar> \<le> 1 / 2 ^ 53" by simp
  have "binary64 ?y \<le> binary64 1" using y by (intro binary64_mono) simp_all
  then have y1: "?y1 \<le> 1" by (simp add: binary64_one)
  have y1pos: "0 < ?y1"
  proof -
    from ilog2_bounds [OF y(1)] have "2 powi (ilog2 ?y) \<le> binary64 ?y"
      by (intro binary64_bounds(1)) simp_all
    with pow2_pos [of "ilog2 ?y"] show ?thesis by linarith
  qed
  then have z: "0 < ?y1 * 100" by simp
  have "\<bar>?x - ?y1 * 100\<bar> \<le> ?y1 * 100 / 2 ^ 53" using z by (rule binary64_error)
  with y1 have e2: "\<bar>?x - ?y1 * 100\<bar> \<le> 100 / 2 ^ 53" by simp
  have "?x - ?y * 100 = (?x - ?y1 * 100) + 100 * (?y1 - ?y)" by simp
  then have "\<bar>?x - ?y * 100\<bar> \<le> \<bar>?x - ?y1 * 100\<bar> + \<bar>100 * (?y1 - ?y)\<bar>"
    by (simp only: abs_triangle_ineq)
  also have "\<bar>100 * (?y1 - ?y)\<bar> = 100 * \<bar>?y1 - ?y\<bar>" by (simp only: abs_mult abs_numeral)
  finally have "\<bar>?x - ?y * 100\<bar> \<le> \<bar>?x - ?y1 * 100\<bar> + 100 * \<bar>?y1 - ?y\<bar>" .
  with e1' e2 have "\<bar>?x - ?y * 100\<bar> \<le> 200 / 2 ^ 53" by simp
  then show ?thesis by (simp add: Number_divide_def Number_multiply_def)
qed

lemma floor_stable:
  fixes N D :: int and s' :: rat
  assumes "0 < D" and "N mod D \<noteq> 0"
    and "\<bar>s' - of_int N / of_int D\<bar> < 1 / of_int D"
  shows "\<lfloor>s'\<rfloor> = \<lfloor>of_int N / of_int D :: rat\<rfloor>"
proof -
  let ?f = "N div D" and ?r = "N mod D"
  have D: "(0::rat) < of_int D" using assms(1) by simp
  have r: "1 \<le> ?r" "?r \<le> D - 1"
    using assms(1,2) pos_mod_sign [of D N] pos_mod_bound [of D N] by linarith+
  have N: "N = ?f * D + ?r" by simp
  have s: "(of_int N :: rat) / of_int D = of_int ?f + of_int ?r / of_int D"
  proof -
    have "(of_int N :: rat) = of_int ?f * of_int D + of_int ?r"
      by (metis N of_int_add of_int_mult)
    then show ?thesis using D by (simp add: field_simps)
  qed
  have r1: "(1::rat) / of_int D \<le> of_int ?r / of_int D"
    using r(1) D by (simp add: divide_right_mono)
  have r2: "(of_int ?r :: rat) / of_int D \<le> 1 - 1 / of_int D"
  proof -
    have "(of_int ?r :: rat) \<le> of_int (D - 1)" using r(2) by (simp only: of_int_le_iff)
    then have "(of_int ?r :: rat) / of_int D \<le> of_int (D - 1) / of_int D"
      using D by (simp add: divide_right_mono)
    also have "\<dots> = 1 - 1 / of_int D" using D by (simp add: field_simps)
    finally show ?thesis .
  qed
  have dpos: "(0::rat) < 1 / of_int D" using D by simp
  have "\<lfloor>of_int N / of_int D :: rat\<rfloor> = ?f"
    unfolding s using r1 r2 dpos by (intro floor_unique; linarith)
  moreover have "\<lfloor>s'\<rfloor> = ?f"
    using assms(3) r1 r2 dpos unfolding s by (intro floor_unique; linarith)
  ultimately show ?thesis by simp
qed

text \<open>The range of the percentage, of its one-decimal numeral and of the value read back.\<close>

lemma percentage_range:
  assumes "0 < R" and "length (present log') \<le> R"
  shows "0 \<le> percentage R log'" and "percentage R log' \<le> 100"
proof -
  let ?q = "(of_nat (length (present log')) :: rat) / of_nat R"
  have q: "0 \<le> ?q" "?q \<le> 1" using assms by simp_all
  have d0: "0 \<le> Number_divide (of_nat (length (present log'))) (of_nat R)"
    unfolding Number_divide_def using q(1) by (rule binary64_nonneg)
  have "binary64 ?q \<le> binary64 1" using q by (rule binary64_mono)
  then have d1: "Number_divide (of_nat (length (present log'))) (of_nat R) \<le> 1"
    by (simp add: Number_divide_def binary64_one)
  let ?d = "Number_divide (of_nat (length (present log'))) (of_nat R)"
  have p: "0 \<le> ?d * 100" "?d * 100 \<le> 100" using d0 d1 by simp_all
  have "binary64 (?d * 100) \<le> binary64 100" using p by (rule binary64_mono)
  moreover have "0 \<le> binary64 (?d * 100)" using p(1) by (rule binary64_nonneg)
  ultimately show "0 \<le> percentage R log'" and "percentage R log' \<le> 100"
    using assms(1) by (simp_all add: percentage_def Number_multiply_def binary64_hundred)
qed

lemma toFixed_nonneg: "0 \<le> x \<Longrightarrow> toFixed x f = of_int \<lfloor>x * 10 ^ f + 1 / 2\<rfloor> / 10 ^ f"
  by (simp add: toFixed_def)

lemma toFixed_1_range:
  assumes "0 \<le> x" and "x \<le> 100"
  shows "0 \<le> toFixed x 1" and "toFixed x 1 \<le> 100"
proof -
  have "(0::rat) \<le> x * 10 + 1 / 2" using assms by simp
  then have lo: "0 \<le> \<lfloor>x * 10 + 1 / 2\<rfloor>" by (simp add: zero_le_floor)
  have "x * 10 + 1 / 2 < of_int 1001" using assms by simp
  then have "\<lfloor>x * 10 + 1 / 2\<rfloor> < 1001" by (simp only: floor_less_iff)
  then have hi: "\<lfloor>x * 10 + 1 / 2\<rfloor> \<le> 1000" by simp
  from lo show "0 \<le> toFixed x 1" using assms(1) by (simp add: toFixed_nonneg)
  from hi have "(of_int \<lfloor>x * 10 + 1 / 2\<rfloor> :: rat) \<le> of_int 1000" by (simp only: of_int_le_iff)
  then show "toFixed x 1 \<le> 100" using assms(1) by (simp add: toFixed_nonneg)
qed

lemma parseFloat_range:
  assumes "0 \<le> d" and "d \<le> 100"
  shows "0 \<le> parseFloat d" and "parseFloat d \<le> 100"
proof -
  show "0 \<le> parseFloat d" unfolding parseFloat_def using assms(1) by (rule binary64_nonneg)
  have "binary64 d \<le> binary64 100" using assms by (rule binary64_mono)
  then show "parseFloat d \<le> 100" by (simp add: parseFloat_def binary64_hundred)
qed

lemma toFixed_1: "0 \<le> x \<Longrightarrow> toFixed x 1 = of_int \<lfloor>x * 10 + 1 / 2\<rfloor> / 10"
  by (simp add: toFixed_def)

lemma toFixed_exact:
  fixes P R :: nat
  assumes "0 < R" and "P \<le> R" and "R < 2 ^ 32" and "(2000 * P + R) mod (2 * R) \<noteq> 0"
  shows "toFixed (Number_multiply (Number_divide (of_nat P) (of_nat R)) 100) 1
           = toFixed (of_nat P / of_nat R * 100) 1"
proof -
  let ?x = "Number_multiply (Number_divide (of_nat P) (of_nat R)) 100"
  let ?t = "(of_nat P :: rat) / of_nat R * 100"
  let ?N = "2000 * int P + int R" and ?D = "2 * int R"
  have D: "0 < ?D" using assms(1) by simp
  have tie: "?N mod ?D \<noteq> 0"
  proof -
    have "?N mod ?D = int ((2000 * P + R) mod (2 * R))" by (simp add: zmod_int)
    with assms(4) show ?thesis by simp
  qed
  have t: "?t * 10 + 1 / 2 = of_int ?N / of_int ?D"
    using assms(1) by (simp add: field_simps)
  have "\<bar>?x - ?t\<bar> \<le> 200 / 2 ^ 53" using assms(1,2) by (rule product_error)
  then have "10 * \<bar>?x - ?t\<bar> \<le> 10 * (200 / 2 ^ 53)"
    by (rule mult_left_mono) simp
  moreover have "\<bar>(?x * 10 + 1 / 2) - (?t * 10 + 1 / 2)\<bar> = 10 * \<bar>?x - ?t\<bar>"
  proof -
    have "(?x * 10 + 1 / 2) - (?t * 10 + 1 / 2) = 10 * (?x - ?t)" by simp
    then show ?thesis by (simp only: abs_mult abs_numeral)
  qed
  ultimately have "\<bar>(?x * 10 + 1 / 2) - (?t * 10 + 1 / 2)\<bar> \<le> 2000 / 2 ^ 53" by simp
  also have "(2000::rat) / 2 ^ 53 < 1 / 2 ^ 33" by simp
  also have "(1::rat) / 2 ^ 33 \<le> 1 / of_int ?D"
  proof -
    have "?D \<le> 2 ^ 33" using assms(3) by simp
    then have "(of_int ?D :: rat) \<le> of_int (2 ^ 33)" by (simp only: of_int_le_iff)
    moreover have "(0::rat) < of_int ?D" using D by (simp only: of_int_0_less_iff)
    ultimately show ?thesis by (simp add: frac_le)
  qed
  finally have close: "\<bar>(?x * 10 + 1 / 2) - of_int ?N / of_int ?D\<bar> < 1 / of_int ?D"
    unfolding t .
  have "\<lfloor>?x * 10 + 1 / 2\<rfloor> = \<lfloor>of_int ?N / of_int ?D :: rat\<rfloor>"
    using D tie close by (rule floor_stable)
  then have fl: "\<lfloor>?x * 10 + 1 / 2\<rfloor> = \<lfloor>?t * 10 + 1 / 2\<rfloor>" by (simp only: t)
  have x0: "0 \<le> ?x"
    using assms(1,2) percentage_range(1) [of R "\<lparr>AttendanceRawData.date = [], present = replicate P 0\<rparr>"]
    by (simp add: percentage_def)
  have t0: "0 \<le> ?t" by simp
  show ?thesis
    unfolding toFixed_1 [OF x0] toFixed_1 [OF t0] fl ..
qed

lemma binary64_75: "binary64 75 = 75"
proof -
  have "binary64 75 = of_int (round_half_even (75 / 2 powi (6 - 52))) * 2 powi (6 - 52)"
    by (rule binary64_at) simp_all
  also have "(75::rat) / 2 powi (6 - 52) = of_int (75 * 2 ^ 46)"
    by (simp add: power_int_minus field_simps)
  also have "round_half_even (of_int (75 * 2 ^ 46)) = 75 * 2 ^ 46"
    by (rule round_half_even_of_int)
  finally show ?thesis by (simp add: power_int_minus)
qed

lemma toFixed_75: "toFixed (3 / 4 * 100) 1 = 75"
proof -
  have "\<lfloor>(3 / 4 * 100 :: rat) * 10 ^ 1 + 1 / 2\<rfloor> = 750"
    by (rule floor_unique) simp_all
  then show ?thesis by (simp add: toFixed_def)
qed

text \<open>The computation for 23 of 80 students, step by step.\<close>

lemma quotient_23_80: "Number_divide 23 80 = 5179139571476070 / 2 ^ 54"
proof -
  have "binary64 (23 / 80) = of_int 5179139571476070 * 2 powi (- 2 - 52)"
    by (rule binary64_value) (simp_all add: power_int_minus field_simps)
  then show ?thesis by (simp add: Number_divide_def power_int_minus field_simps)
qed

lemma product_23_80: "Number_multiply (5179139571476070 / 2 ^ 54) 100 = 8092405580431359 / 2 ^ 48"
proof -
  have "binary64 (5179139571476070 / 2 ^ 54 * 100) = of_int 8092405580431359 * 2 powi (4 - 52)"
    by (rule binary64_value) (simp_all add: power_int_minus field_simps)
  then show ?thesis by (simp add: Number_multiply_def power_int_minus field_simps)
qed

lemma toFixed_23_80: "toFixed (8092405580431359 / 2 ^ 48) 1 = 287 / 10"
proof -
  have "\<lfloor>(8092405580431359 / 2 ^ 48 :: rat) * 10 ^ 1 + 1 / 2\<rfloor> = 287"
    by (rule floor_unique) simp_all
  then show ?thesis by (simp add: toFixed_def)
qed

lemma toFixed_exact_23_80: "toFixed (23 / 80 * 100) 1 = 288 / 10"
proof -
  have "\<lfloor>(23 / 80 * 100 :: rat) * 10 ^ 1 + 1 / 2\<rfloor> = 288"
    by (rule floor_unique) simp_all
  then show ?thesis by (simp add: toFixed_def)
qed

lemma parseFloat_287: "parseFloat (287 / 10) = 8078331831595827 / 2 ^ 48"
proof -
  have "binary64 (287 / 10) = of_int 8078331831595827 * 2 powi (4 - 52)"
    by (rule binary64_value) (simp_all add: power_int_minus field_simps)
  then show ?thesis by (simp add: parseFloat_def power_int_minus field_simps)
qed

lemma parseFloat_288: "parseFloat (288 / 10) = 8106479329266893 / 2 ^ 48"
proof -
  have "binary64 (288 / 10) = of_int 8106479329266893 * 2 powi (4 - 52)"
    by (rule binary64_value) (simp_all add: power_int_minus field_simps)
  then show ?thesis by (simp add: parseFloat_def power_int_minus field_simps)
qed

lemma length_roster80: "length roster80 = 80"
  by (simp add: roster80_def)

lemma length_log23: "length (present log23) = 23"
  by (simp add: log23_def)

lemma percentage_23_80: "percentage (length roster80) log23 = 8092405580431359 / 2 ^ 48"
proof -
  have "percentage (length roster80) log23 = Number_multiply (Number_divide 23 80) 100"
    by (simp add: percentage_def length_roster80 length_log23)
  also have "\<dots> = Number_multiply (5179139571476070 / 2 ^ 54) 100"
    by (simp only: quotient_23_80)
  also have "\<dots> = 8092405580431359 / 2 ^ 48"
    by (rule product_23_80)
  finally show ?thesis .
qed

lemma chart_23_80: "attendancePercentage (chartData roster80 [log23] ! 0) = parseFloat (287 / 10)"
proof -
  have "attendancePercentage (chartData roster80 [log23] ! 0)
          = parseFloat (toFixed (percentage (length roster80) log23) 1)"
    by (simp add: chartData_def chartPoint_def)
  also have "\<dots> = parseFloat (287 / 10)"
    by (simp only: percentage_23_80 toFixed_23_80)
  finally show ?thesis .
qed

lemma exact_23_80:
  "parseFloat (toFixed (of_nat (length (present log23)) / of_nat (length roster80) * 100) 1)
     = parseFloat (288 / 10)"
proof -
  have "(of_nat (length (present log23)) :: rat) / of_nat (length roster80) * 100 = 23 / 80 * 100"
    by (simp add: length_roster80 length_log23)
  then show ?thesis by (simp only: toFixed_exact_23_80)
qed

lemma parseFloat_287_less_288: "parseFloat (287 / 10) < parseFloat (288 / 10)"
  unfolding parseFloat_287 parseFloat_288 by simp


subsection \<open>The attendance percentage\<close>

text \<open>
  C1, as stated, fails: with 23 of 80 students present the exact percentage is 28.75, whose
  half-up rounding to one decimal is 28.8. The binary64 quotient \<open>23 / 80\<close> times 100 is
  slightly below 28.75, so \<open>toFixed(1)\<close> prints 28.7 and the chart point holds 28.7.
\<close>

theorem percentage_half_up_counterexample:
  "length roster80 = 80 \<and> length (present log23) = 23
   \<and> attendancePercentage (chartData roster80 [log23] ! 0) = parseFloat (287 / 10)
   \<and> parseFloat (toFixed (of_nat (length (present log23)) / of_nat (length roster80) * 100) 1)
       = parseFloat (288 / 10)
   \<and> parseFloat (287 / 10) < parseFloat (288 / 10)
   \<and> attendancePercentage (chartData roster80 [log23] ! 0)
       \<noteq> parseFloat (toFixed (of_nat (length (present log23)) / of_nat (length roster80) * 100) 1)"
proof -
  have "attendancePercentage (chartData roster80 [log23] ! 0)
       \<noteq> parseFloat (toFixed (of_nat (length (present log23)) / of_nat (length roster80) * 100) 1)"
    unfolding chart_23_80 exact_23_80 using parseFloat_287_less_288 by simp
  with length_roster80 length_log23 chart_23_80 exact_23_80 parseFloat_287_less_288
  show ?thesis by (intro conjI)
qed

text \<open>
  C1, amended. For a roster of \<open>R > 0\<close> students and a log entry with \<open>P \<le> R\<close> present
  ids, the attendance percentage of the chart point lies in \<open>[0, 100]\<close> and is the
  one-decimal half-up rounding of the binary64 product \<open>(P / R) * 100\<close>, read back as a
  binary64 value. It is the half-up rounding of the exact \<open>P / R * 100\<close> whenever that value
  is not exactly halfway between two one-decimal values, that is, whenever
  \<open>2000 * P + R\<close> is not a multiple of \<open>2 * R\<close> (for rosters below \<open>2 ^ 32\<close> students, the
  bound on array lengths).
\<close>

theorem percentage_rounding:
  assumes "students \<noteq> []" and "k < length logs"
    and "length (present (logs ! k)) \<le> length students"
  shows "0 \<le> attendancePercentage (chartData students logs ! k)
       \<and> attendancePercentage (chartData students logs ! k) \<le> 100
       \<and> attendancePercentage (chartData students logs ! k)
           = parseFloat (toFixed
               (Number_multiply
                  (Number_divide (of_nat (length (present (logs ! k)))) (of_nat (length students)))
                  100) 1)
       \<and> (length students < 2 ^ 32
            \<and> (2000 * length (present (logs ! k)) + length students) mod (2 * length students) \<noteq> 0
          \<longrightarrow> attendancePercentage (chartData students logs ! k)
                = parseFloat (toFixed
                    (of_nat (length (present (logs ! k))) / of_nat (length students) * 100) 1))"
proof -
  let ?R = "length students"
  have R: "0 < ?R" using assms(1) by simp
  note p = percentage_range [OF R assms(3)]
  note t = toFixed_1_range [OF p]
  note f = parseFloat_range [OF t]
  have a: "attendancePercentage (chartData students logs ! k)
          = parseFloat (toFixed (percentage ?R (logs ! k)) 1)"
    using assms(2) by (simp add: chartData_def chartPoint_def)
  have pc: "percentage ?R (logs ! k)
      = Number_multiply
          (Number_divide (of_nat (length (present (logs ! k)))) (of_nat ?R)) 100"
    using R by (simp add: percentage_def)
  have range: "0 \<le> attendancePercentage (chartData students logs ! k)"
      "attendancePercentage (chartData students logs ! k) \<le> 100"
    using f by (simp_all only: a)
  have exact: "attendancePercentage (chartData students logs ! k)
                = parseFloat (toFixed
                    (of_nat (length (present (logs ! k))) / of_nat ?R * 100) 1)"
    if "?R < 2 ^ 32"
      and "(2000 * length (present (logs ! k)) + ?R) mod (2 * ?R) \<noteq> 0"
    using toFixed_exact [OF R assms(3) that] by (simp only: a pc)
  have a': "attendancePercentage (chartData students logs ! k)
           = parseFloat (toFixed
               (Number_multiply
                  (Number_divide (of_nat (length (present (logs ! k)))) (of_nat ?R))
                  100) 1)"
    by (simp only: a pc)
  from range a' exact show ?thesis by (intro conjI impI) (elim conjE | assumption)+
qed

theorem percentage_rounding_witness:
  "0 \<le> attendancePercentage (chartData roster4 [log3] ! 0)
   \<and> attendancePercentage (chartData roster4 [log3] ! 0) \<le> 100
   \<and> attendancePercentage (chartData roster4 [log3] ! 0) = 75"
proof -
  have len: "length roster4 = 4" "length (present log3) = 3"
    by (simp_all add: roster4_def log3_def)
  have a: "roster4 \<noteq> []" by (simp add: roster4_def)
  have b: "0 < length [log3]" by simp
  have c: "length (present ([log3] ! 0)) \<le> length roster4" by (simp add: len)
  have d: "length roster4 < 2 ^ 32
      \<and> (2000 * length (present ([log3] ! 0)) + length roster4) mod (2 * length roster4) \<noteq> 0"
    by (simp add: len)
  note r = percentage_rounding [OF a b c]
  from r d have "attendancePercentage (chartData roster4 [log3] ! 0)
      = parseFloat (toFixed (of_nat (length (present ([log3] ! 0))) / of_nat (length roster4) * 100) 1)"
    by blast
  also have "\<dots> = parseFloat (toFixed (3 / 4 * 100) 1)" by (simp add: len)
  also have "\<dots> = 75" by (simp only: toFixed_75 parseFloat_def binary64_75)
  finally have "attendancePercentage (chartData roster4 [log3] ! 0) = 75" .
  with r show ?thesis by blast
qed

subsection \<open>The by-student history\<close>





subsection \<open>Rows of the by-day view\<close>

text \<open>
  C3, as stated, fails for the empty date string: the guard of the by-day view treats the
  empty string like a missing selection, so an entry whose date is the empty string is
  never shown, although it matches.
\<close>

theorem by_day_rows_counterexample:
  "find (\<lambda>r. AttendanceRawData.date r = [])
       [\<lparr>AttendanceRawData.date = [], present = [2, 7]\<rparr>]
     = Some \<lparr>AttendanceRawData.date = [], present = [2, 7]\<rparr>
   \<and> presentStudentsOnSelectedDate (Some [])
       [\<lparr>AttendanceRawData.date = [], present = [2, 7]\<rparr>]
       [\<lparr>id' = 2, name = ''Bob''\<rparr>, \<lparr>id' = 7, name = ''Eve''\<rparr>]
     = []"
  by (simp add: presentStudentsOnSelectedDate_def)

text \<open>
  C3, amended. For every non-empty selected date whose first matching log entry is
  \<open>log'\<close>, and every non-empty roster, the by-day view has exactly one row per id of the
  entry's \<open>present\<close> list, in the same order; the row is the name of a roster student with
  that id when there is one, and the label \<open>ID: <id>\<close> otherwise. No id is dropped.
\<close>

theorem by_day_rows:
  assumes "d \<noteq> []" and "students \<noteq> []"
    and "find (\<lambda>r. AttendanceRawData.date r = d) logs = Some log'"
  shows "length (presentStudentsOnSelectedDate (Some d) logs students) = length (present log')
       \<and> (\<forall>k < length (present log').
            if \<exists>s \<in> set students. id' s = present log' ! k
            then \<exists>s \<in> set students. id' s = present log' ! k
                   \<and> presentStudentsOnSelectedDate (Some d) logs students ! k = name s
            else presentStudentsOnSelectedDate (Some d) logs students ! k
                   = ''ID: '' @ Number_toString (present log' ! k))"
proof -
  have out: "presentStudentsOnSelectedDate (Some d) logs students
               = map (studentLabel students) (present log')"
    using assms by (simp add: presentStudentsOnSelectedDate_def)
  show ?thesis
    unfolding out using studentLabel_found studentLabel_missing by simp
qed

theorem by_day_rows_witness:
  "presentStudentsOnSelectedDate (Some ''2025-05-01'')
     [\<lparr>AttendanceRawData.date = ''2025-05-01'', present = [2, 7, 99]\<rparr>]
     [\<lparr>id' = 2, name = ''Bob''\<rparr>, \<lparr>id' = 7, name = ''Eve''\<rparr>]
   = [''Bob'', ''Eve'', ''ID: 99'']"
proof -
  let ?logs = "[\<lparr>AttendanceRawData.date = ''2025-05-01'', present = [2, 7, 99]\<rparr>]"
  let ?students = "[\<lparr>id' = 2, name = ''Bob''\<rparr>, \<lparr>id' = 7, name = ''Eve''\<rparr>]"
  let ?out = "presentStudentsOnSelectedDate (Some ''2025-05-01'') ?logs ?students"
  have d: "''2025-05-01'' \<noteq> []" and s: "?students \<noteq> []"
    and f: "find (\<lambda>r. AttendanceRawData.date r = ''2025-05-01'') ?logs
              = Some \<lparr>AttendanceRawData.date = ''2025-05-01'', present = [2, 7, 99]\<rparr>"
    by simp_all
  note r = by_day_rows [OF d s f]
  note row = r [THEN conjunct2, rule_format]
  from r have len: "length ?out = 3" by simp
  from row [of 0] have r0: "?out ! 0 = ''Bob''" by simp
  from row [of 1] have r1: "?out ! 1 = ''Eve''" by simp
  from row [of 2] have r2: "?out ! 2 = ''ID: 99''"
    by (simp add: Number_toString_def digits.simps digit_char_def)
  from len r0 r1 r2 show ?thesis by (rule list_of_three)
qed

subsection \<open>Aggregation keeps the order of the logs\<close>

text \<open>
  C4. With a non-empty roster and non-empty logs the processing effect stores one chart
  point per log entry, and the \<open>originalDate\<close> fields of the chart points are the \<open>date\<close>
  fields of the logs in the same order: nothing is sorted or reordered.
\<close>

theorem aggregation_preserves_order:
  assumes "allStudents st \<noteq> []" and "rawAttendance st \<noteq> []"
  shows "length (processedChartData (processChartData st)) = length (rawAttendance st)
       \<and> map originalDate (processedChartData (processChartData st))
           = map AttendanceRawData.date (rawAttendance st)"
  using assms by (simp add: processChartData_def chartData_def chartPoint_def comp_def)

theorem aggregation_preserves_order_witness:
  "allStudents exampleState \<noteq> [] \<and> rawAttendance exampleState \<noteq> []
   \<and> length (processedChartData (processChartData exampleState)) = 2
   \<and> map originalDate (processedChartData (processChartData exampleState))
       = [''2025-05-03'', ''2025-05-01'']"
  using aggregation_preserves_order [of exampleState] by (simp add: exampleState_def)

subsection \<open>The by-day view is empty without a selection, a match or a roster\<close>

text \<open>
  C5. The by-day drill-down returns the empty sequence whenever no date is selected, or no
  log entry has the selected date, or the roster is empty. The function is total: there is
  no error result.
\<close>

theorem by_day_empty:
  assumes "sel = None
         \<or> (\<forall>r \<in> set logs. Some (AttendanceRawData.date r) \<noteq> sel)
         \<or> students = []"
  shows "presentStudentsOnSelectedDate sel logs students = []"
proof (cases sel)
  case None
  then show ?thesis by (simp add: presentStudentsOnSelectedDate_def)
next
  case (Some d)
  show ?thesis
  proof (cases "students = []")
    case True
    with Some show ?thesis by (simp add: presentStudentsOnSelectedDate_def)
  next
    case False
    with assms Some have "\<forall>r \<in> set logs. AttendanceRawData.date r \<noteq> d" by auto
    then have "find (\<lambda>r. AttendanceRawData.date r = d) logs = None"
      by (simp add: find_None_iff)
    with Some show ?thesis by (simp add: presentStudentsOnSelectedDate_def)
  qed
qed

theorem by_day_empty_witness:
  "presentStudentsOnSelectedDate (Some ''2025-05-02'')
     (rawAttendance exampleState) (allStudents exampleState) = []"
proof -
  have h: "\<forall>r \<in> set (rawAttendance exampleState).
             Some (AttendanceRawData.date r) \<noteq> Some ''2025-05-02''"
    by (simp add: exampleState_def)
  from h by_day_empty [of "Some ''2025-05-02''" "rawAttendance exampleState"
      "allStudents exampleState"]
  show ?thesis by blast
qed

subsection \<open>The processing effect is skipped on an empty roster or empty logs\<close>

text \<open>
  C6. When the roster or the logs are empty the processing effect leaves the whole state,
  and so the stored chart data, as it was. No operation of the model has an error result
  (a division in JavaScript never raises), and the percentage of a zero-size roster is
  defined as 0.
\<close>

theorem aggregation_skipped_when_empty:
  assumes "allStudents st = [] \<or> rawAttendance st = []"
  shows "processChartData st = st
       \<and> processedChartData (processChartData st) = processedChartData st
       \<and> percentage 0 log' = 0
       \<and> attendancePercentage (chartPoint 0 log') = 0"
  using assms
  by (auto simp: processChartData_def percentage_def chartPoint_def toFixed_zero
      parseFloat_def binary64_zero)

theorem aggregation_skipped_when_empty_witness:
  "rawAttendance (exampleState\<lparr>rawAttendance := []\<rparr>) = []
   \<and> processChartData (exampleState\<lparr>rawAttendance := []\<rparr>) = exampleState\<lparr>rawAttendance := []\<rparr>
   \<and> percentage 0 \<lparr>AttendanceRawData.date = ''2025-05-03'', present = [1]\<rparr> = 0"
  using aggregation_skipped_when_empty [of "exampleState\<lparr>rawAttendance := []\<rparr>"
      "\<lparr>AttendanceRawData.date = ''2025-05-03'', present = [1]\<rparr>"]
  by simp

subsection \<open>The two selections are independent\<close>

text \<open>
  C7. The click handler changes at most the selected date and the select handler changes
  only the selected student id; neither alters the other component (or any other part of
  the state). A click that carries the chart point \<open>p\<close> followed by the choice of the
  student value \<open>v\<close> leaves both selections set: with the date \<open>2025-05-01\<close> and the
  value \<open>3\<close> both hold at once.
\<close>

theorem selection_independent:
  "handleBarClick data index st
     = st\<lparr>selectedBarDate := selectedBarDate (handleBarClick data index st)\<rparr>
   \<and> selectedStudentId (handleBarClick data index st) = selectedStudentId st
   \<and> onStudentChange v st = st\<lparr>selectedStudentId := v\<rparr>
   \<and> selectedBarDate (onStudentChange v st) = selectedBarDate st
   \<and> selectedBarDate
        (onStudentChange v
           (handleBarClick (Some \<lparr>activePayload = Some (\<lparr>payload = p\<rparr> # es)\<rparr>) index st))
       = Some (originalDate p)
   \<and> selectedStudentId
        (onStudentChange v
           (handleBarClick (Some \<lparr>activePayload = Some (\<lparr>payload = p\<rparr> # es)\<rparr>) index st))
       = v
   \<and> selectedBarDate
        (onStudentChange ''3''
           (handleBarClick
              (Some \<lparr>activePayload = Some [\<lparr>payload = p\<lparr>originalDate := ''2025-05-01''\<rparr>\<rparr>]\<rparr>)
              index st))
       = Some ''2025-05-01''
   \<and> selectedStudentId
        (onStudentChange ''3''
           (handleBarClick
              (Some \<lparr>activePayload = Some [\<lparr>payload = p\<lparr>originalDate := ''2025-05-01''\<rparr>\<rparr>]\<rparr>)
              index st))
       = ''3''"
  by (auto simp: handleBarClick_def clickFallback_def onStudentChange_def
      split: option.splits list.splits)

subsection \<open>Selecting the selected date again changes nothing\<close>

text \<open>
  C8. Handling the same click twice gives the same state as handling it once. In
  particular a second click on the selected bar leaves its date selected; the selection
  is never cleared.
\<close>

theorem reselect_idempotent:
  "handleBarClick data index (handleBarClick data index st) = handleBarClick data index st
   \<and> selectedBarDate
        (handleBarClick (Some \<lparr>activePayload = Some (\<lparr>payload = p\<rparr> # es)\<rparr>) index
           (handleBarClick (Some \<lparr>activePayload = Some (\<lparr>payload = p\<rparr> # es)\<rparr>) index st))
       = Some (originalDate p)"
  by (auto simp: handleBarClick_def clickFallback_def split: option.splits list.splits)

subsection \<open>Duplicate dates: the first entry decides\<close>

text \<open>
  C9. When several log entries have the selected date, the by-day view is computed from
  the first of them: the entries after the first match, duplicates included, do not
  change the result.
\<close>

theorem by_day_first_match_only:
  assumes "\<forall>r \<in> set pre. AttendanceRawData.date r \<noteq> d" and "AttendanceRawData.date e = d"
  shows "presentStudentsOnSelectedDate (Some d) (pre @ e # rest) students
           = presentStudentsOnSelectedDate (Some d) (pre @ [e]) students
       \<and> (d \<noteq> [] \<and> students \<noteq> [] \<longrightarrow>
            presentStudentsOnSelectedDate (Some d) (pre @ e # rest) students
              = map (studentLabel students) (present e))"
proof -
  have "find (\<lambda>r. AttendanceRawData.date r = d) (pre @ e # rest) = Some e"
    using assms by (intro find_first_match) auto
  moreover have "find (\<lambda>r. AttendanceRawData.date r = d) (pre @ [e]) = Some e"
    using assms by (intro find_first_match) auto
  ultimately show ?thesis by (simp add: presentStudentsOnSelectedDate_def)
qed

theorem by_day_first_match_only_witness:
  "presentStudentsOnSelectedDate (Some ''2025-05-01'')
     ([\<lparr>AttendanceRawData.date = ''2025-05-03'', present = [1]\<rparr>]
        @ \<lparr>AttendanceRawData.date = ''2025-05-01'', present = [2]\<rparr>
        # [\<lparr>AttendanceRawData.date = ''2025-05-01'', present = [1, 2]\<rparr>])
     (allStudents exampleState)
   = [''Bob'']"
proof -
  have pre: "\<forall>r \<in> set [\<lparr>AttendanceRawData.date = ''2025-05-03'', present = [1]\<rparr>].
               AttendanceRawData.date r \<noteq> ''2025-05-01''"
    by simp
  have e: "AttendanceRawData.date \<lparr>AttendanceRawData.date = ''2025-05-01'', present = [2]\<rparr>
             = ''2025-05-01''"
    by simp
  have ne: "''2025-05-01'' \<noteq> [] \<and> allStudents exampleState \<noteq> []"
    by (simp add: exampleState_def)
  from by_day_first_match_only [OF pre e] ne
  have "presentStudentsOnSelectedDate (Some ''2025-05-01'')
     ([\<lparr>AttendanceRawData.date = ''2025-05-03'', present = [1]\<rparr>]
        @ \<lparr>AttendanceRawData.date = ''2025-05-01'', present = [2]\<rparr>
        # [\<lparr>AttendanceRawData.date = ''2025-05-01'', present = [1, 2]\<rparr>])
     (allStudents exampleState)
   = map (studentLabel (allStudents exampleState))
       (present \<lparr>AttendanceRawData.date = ''2025-05-01'', present = [2]\<rparr>)"
    by blast
  also have "\<dots> = [''Bob'']"
    by (simp add: studentLabel_def exampleState_def)
  finally show ?thesis .
qed

subsection \<open>The display date is defined for every string\<close>

text \<open>
  C10. Taking the substring from index 5 is total: for every string it is the suffix after
  the first five code units, which is empty when the string has at most five. The display
  dates of the chart points and of the by-student records are this suffix, for every
  date string.
\<close>

theorem display_date_total:
  "substring s 5 = drop 5 s
   \<and> length (substring s 5) = length s - 5
   \<and> take 5 s @ substring s 5 = s
   \<and> ProcessedChartDataPoint.date (chartPoint n log') = drop 5 (AttendanceRawData.date log')
   \<and> StudentAttendance.date (attendanceOf v log') = drop 5 (AttendanceRawData.date log')"
  by (simp add: substring_5 chartPoint_def attendanceOf_def)

end
